theory Spec2Isabelle
  imports Complex_Main "HOL-Library.Word" "HOL-Library.Multiset"
begin

unbundle bit_operations_syntax

section \<open>Data model of main.go\<close>

text \<open>
  Go's \<open>int\<close> and \<open>int64\<close> are 64-bit two's-complement integers on the 64-bit targets
  the program is built for; the fields of \<open>Config\<close> come straight from the command line
  (\<open>flag.Int\<close>), so any 64-bit value can reach them and they are kept as \<open>64 word\<close>,
  read through \<open>sint\<close>. Signed overflow in Go wraps around, as \<open>+\<close> and \<open>-\<close> on words do.
\<close>

type_synonym go_int = "64 word"
type_synonym int64 = "64 word"

text \<open>\<open>type Card struct { keyword string; combo bool }\<close>\<close>

record Card =
  keyword :: string
  combo :: bool

text \<open>\<open>type Config struct { deckSize, lands, combos, required, runs int; seed int64 }\<close>\<close>

record Config =
  deckSize :: go_int
  lands :: go_int
  combos :: go_int
  required :: go_int
  runs :: go_int
  seed :: int64

text \<open>
  \<open>type Simulation struct { drawsToWinCon int64; openingHandWin bool; openingHandLands int }\<close>.
  Both counters only ever count cards of one slice, so they stay far below \<open>2^63\<close> and
  are kept as the integer they denote.
\<close>

record Simulation =
  drawsToWinCon :: int
  openingHandWin :: bool
  openingHandLands :: int

text \<open>
  \<open>type Results struct { attempts int64; averageDrawsToWin float64; openingHandWins int64;
  averageOpeningHandWins float64; averageOpeningLands float64 }\<close>.
  The type \<open>'f\<close> stands for \<open>float64\<close>.
\<close>

record 'f Results =
  attempts :: int64
  averageDrawsToWin :: 'f
  openingHandWins :: int64
  averageOpeningHandWins :: 'f
  averageOpeningLands :: 'f

text \<open>The run-time panics and the validation errors of the program.\<close>

datatype panic = SliceBoundsOutOfRange

datatype config_error =
    DeckTooSmall
  | NegativeLands
  | NegativeCombos
  | RequiredBelowOne
  | RequiredExceedsCombos go_int go_int
  | DeckOvercommitted go_int go_int go_int
  | RunsBelowOne

section \<open>The win check and one trial\<close>

text \<open>
  \<open>checkComboWin\<close>: the loop \<open>for i := 0; i < len(hand); i++\<close> with its local \<open>count\<close>.
  The local \<open>count\<close> (here \<open>cnt\<close>) is at most \<open>len(hand)\<close>, so \<open>count++\<close> cannot wrap;
  \<open>req\<close> is the value of the Go \<open>int\<close> argument \<open>required\<close>.
\<close>

fun checkComboWin_loop :: "Card list \<Rightarrow> int \<Rightarrow> int \<Rightarrow> bool" where
  "checkComboWin_loop [] req cnt = False"
| "checkComboWin_loop (c # hand) req cnt =
     (if combo c
      then (let cnt = cnt + 1
            in if cnt = req then True else checkComboWin_loop hand req cnt)
      else checkComboWin_loop hand req cnt)"

definition checkComboWin :: "Card list \<Rightarrow> int \<Rightarrow> bool" where
  "checkComboWin hand req = checkComboWin_loop hand req 0"

text \<open>The counting loop over the opening hand: \<open>for _, c := range hand\<close>.\<close>

fun countOpeningLands :: "Card list \<Rightarrow> int \<Rightarrow> int" where
  "countOpeningLands [] openingLands = openingLands"
| "countOpeningLands (c # hand) openingLands =
     countOpeningLands hand (if keyword c = ''land'' then openingLands + 1 else openingLands)"

text \<open>
  The draw loop \<open>for len(deck) > 0\<close> of \<open>runSimulation\<close>. The hand is the prefix of the
  deck's backing array, so \<open>append(hand, drawn)\<close> stores the card where it already is;
  as values, the hand grows by the drawn card and the library loses it.
\<close>

fun drawLoop :: "Card list \<Rightarrow> Card list \<Rightarrow> int \<Rightarrow> int \<Rightarrow> int \<Rightarrow> Simulation" where
  "drawLoop [] hand req drawCount openingLands =
     \<lparr>drawsToWinCon = drawCount, openingHandWin = False, openingHandLands = openingLands\<rparr>"
| "drawLoop (drawn # deck) hand req drawCount openingLands =
     (let drawCount = drawCount + 1;
          hand = hand @ [drawn]
      in if checkComboWin hand req
         then \<lparr>drawsToWinCon = drawCount, openingHandWin = False,
               openingHandLands = openingLands\<rparr>
         else drawLoop deck hand req drawCount openingLands)"

text \<open>
  \<open>runSimulation\<close>. The statement \<open>hand, deck := deck[:7], deck[7:]\<close> evaluates both slice
  expressions; \<open>deck[7:]\<close> needs \<open>7 \<le> len(deck)\<close> (and \<open>deck[:7]\<close> needs \<open>7 \<le> cap(deck)\<close>,
  which is weaker), so the statement panics exactly when the deck has fewer than 7 cards.
  Every other access is guarded by its loop (\<open>deck[0]\<close> under \<open>len(deck) > 0\<close>, \<open>hand[i]\<close>
  under \<open>i < len(hand)\<close>), so the split is the only place where the trial can panic.
\<close>

definition runSimulation :: "Card list \<Rightarrow> int \<Rightarrow> panic + Simulation" where
  "runSimulation deck req =
     (if length deck < 7 then Inl SliceBoundsOutOfRange
      else
        let drawCount = 0;
            hand = take 7 deck;
            deck = drop 7 deck;
            openingLands = countOpeningLands hand 0
        in if checkComboWin hand req
           then Inr \<lparr>drawsToWinCon = drawCount, openingHandWin = True,
                     openingHandLands = openingLands\<rparr>
           else Inr (drawLoop deck hand req drawCount openingLands))"

section \<open>Validation and seed derivation\<close>

text \<open>\<open>validateConfig\<close>: \<open>None\<close> is the \<open>nil\<close> error. All comparisons are signed.\<close>

definition validateConfig :: "Config \<Rightarrow> config_error option" where
  "validateConfig cfg =
     (if deckSize cfg <s 7 then Some DeckTooSmall
      else if lands cfg <s 0 then Some NegativeLands
      else if combos cfg <s 0 then Some NegativeCombos
      else if required cfg <s 1 then Some RequiredBelowOne
      else if combos cfg <s required cfg
        then Some (RequiredExceedsCombos (required cfg) (combos cfg))
      else if deckSize cfg <s lands cfg + combos cfg
        then Some (DeckOvercommitted (lands cfg) (combos cfg) (deckSize cfg))
      else if runs cfg <s 1 then Some RunsBelowOne
      else None)"

text \<open>
  \<open>simSeed\<close>: \<open>uint64(baseSeed)\<close>, \<open>uint64(simIndex)\<close> and the final \<open>int64(x)\<close> keep the
  64 bits; \<open>>>\<close> on \<open>uint64\<close> is the logical shift.
\<close>

definition simSeed :: "int64 \<Rightarrow> go_int \<Rightarrow> int64" where
  "simSeed baseSeed simIndex =
     (let x = baseSeed + simIndex + 0x9e3779b97f4a7c15;
          x = (x XOR (drop_bit 30 x)) * 0xbf58476d1ce4e5b9;
          x = (x XOR (drop_bit 27 x)) * 0x94d049bb133111eb;
          x = x XOR (drop_bit 31 x)
      in x)"

text \<open>
  The mixing that the design describes for \<open>simSeed\<close>, written on natural numbers with
  every wrap-around modulo \<open>2^64\<close> spelled out: add the odd constant, then two rounds of
  xor-shift and multiplication by an odd constant, then a last xor-shift. It is compared
  with \<open>simSeed\<close> below.
\<close>

definition splitmix_spec :: "nat \<Rightarrow> nat \<Rightarrow> nat" where
  "splitmix_spec baseSeed simIndex =
     (let x = (baseSeed + simIndex + 0x9e3779b97f4a7c15) mod 2 ^ 64;
          x = ((x XOR (x div 2 ^ 30)) * 0xbf58476d1ce4e5b9) mod 2 ^ 64;
          x = ((x XOR (x div 2 ^ 27)) * 0x94d049bb133111eb) mod 2 ^ 64;
          x = x XOR (x div 2 ^ 31)
      in x)"

section \<open>Building and shuffling a deck\<close>

text \<open>
  The generator \<open>*rand.Rand\<close> belongs to Go's standard library, not to this program. Its
  state is taken as the sequence of raw values it has yet to produce, and a bounded draw
  (\<open>Int31n(n)\<close>, \<open>Int63n(n)\<close>) as the next raw value reduced below \<open>n\<close>; every sequence of
  in-range draws arises from some such state.
\<close>

type_synonym rng = "nat \<Rightarrow> nat"

definition rng_intn :: "rng \<Rightarrow> nat \<Rightarrow> nat \<times> rng" where
  "rng_intn g n = (g 0 mod n, \<lambda>k. g (Suc k))"

text \<open>
  \<open>(*rand.Rand).Shuffle(n, swap)\<close> as the standard library documents and implements it:
  Fisher-Yates, \<open>for i := n - 1; i > 0; i-- { j := Intn(i + 1); swap(i, j) }\<close>.
\<close>

fun rand_Shuffle_loop :: "nat \<Rightarrow> (nat \<Rightarrow> nat \<Rightarrow> 'a \<Rightarrow> 'a) \<Rightarrow> rng \<Rightarrow> 'a \<Rightarrow> 'a \<times> rng" where
  "rand_Shuffle_loop 0 swap g st = (st, g)"
| "rand_Shuffle_loop (Suc i) swap g st =
     (case rng_intn g (Suc i + 1) of
        (j, g') \<Rightarrow> rand_Shuffle_loop i swap g' (swap (Suc i) j st))"

definition rand_Shuffle :: "nat \<Rightarrow> (nat \<Rightarrow> nat \<Rightarrow> 'a \<Rightarrow> 'a) \<Rightarrow> rng \<Rightarrow> 'a \<Rightarrow> 'a \<times> rng" where
  "rand_Shuffle n swap g st = rand_Shuffle_loop (n - 1) swap g st"

text \<open>
  \<open>shuffleDeck\<close>: the callback \<open>deck[i], deck[j] = deck[j], deck[i]\<close> reads both cards
  first and then stores them, left to right. The generator is passed by pointer, so its
  new state is returned beside the deck.
\<close>

definition shuffleDeck :: "Card list \<Rightarrow> rng \<Rightarrow> Card list \<times> rng" where
  "shuffleDeck deck g =
     rand_Shuffle (length deck) (\<lambda>i j deck. deck[i := deck ! j, j := deck ! i]) g deck"

text \<open>
  One filling loop of \<open>createDeck\<close>: \<open>for i := 0; i < n; i++ { deck = append(deck, c) }\<close>.
  The counter stays below \<open>n\<close>, so \<open>i++\<close> cannot wrap.
\<close>

function appendCards :: "int \<Rightarrow> int \<Rightarrow> Card \<Rightarrow> Card list \<Rightarrow> Card list" where
  "appendCards i n c deck =
     (if i < n then appendCards (i + 1) n c (deck @ [c]) else deck)"
  by pat_completeness auto
termination
  by (relation "measure (\<lambda>(i, n, c, deck). nat (n - i))") auto

text \<open>
  \<open>createDeck\<close>. \<open>numNonLands\<close> and \<open>numNonLands - numComboPieces\<close> are computed on Go
  \<open>int\<close>s and wrap; an omitted \<open>combo\<close> field is \<open>false\<close>.
\<close>

definition createDeck :: "Config \<Rightarrow> rng \<Rightarrow> Card list \<times> rng" where
  "createDeck cfg g =
     (let numLands = lands cfg;
          numNonLands = deckSize cfg - numLands;
          numComboPieces = combos cfg;
          deck = [];
          deck = appendCards 0 (sint numLands) \<lparr>keyword = ''land'', combo = False\<rparr> deck;
          deck = appendCards 0 (sint (numNonLands - numComboPieces))
                   \<lparr>keyword = ''non-land'', combo = False\<rparr> deck;
          deck = appendCards 0 (sint numComboPieces)
                   \<lparr>keyword = ''non-land'', combo = True\<rparr> deck
      in shuffleDeck deck g)"

section \<open>A full run\<close>

text \<open>
  The body of one worker iteration: seed a fresh generator for the job, build the deck,
  run the trial. \<open>newSource\<close> stands for \<open>rand.New(rand.NewSource(seed))\<close> of the
  standard library.
\<close>

definition simulateJob :: "(int64 \<Rightarrow> rng) \<Rightarrow> Config \<Rightarrow> go_int \<Rightarrow> panic + Simulation" where
  "simulateJob newSource cfg simIndex =
     (let g = newSource (simSeed (seed cfg) simIndex);
          deck = fst (createDeck cfg g)
      in runSimulation deck (sint (required cfg)))"

text \<open>The producer: \<open>for i := 0; i < cfg.runs; i++ { jobs <- i }\<close>.\<close>

definition jobIndices :: "Config \<Rightarrow> go_int list" where
  "jobIndices cfg = map word_of_nat [0 ..< nat (sint (runs cfg))]"

text \<open>
  The consumer's accumulators \<open>results.attempts\<close>, \<open>drawSum\<close>, \<open>landSum\<close> and
  \<open>openingWinCount\<close>, all \<open>int64\<close>, and the body of \<open>for sim := range output\<close>.
\<close>

record Tally =
  t_attempts :: int64
  t_drawSum :: int64
  t_landSum :: int64
  t_openingWinCount :: int64

definition tally0 :: Tally where
  "tally0 = \<lparr>t_attempts = 0, t_drawSum = 0, t_landSum = 0, t_openingWinCount = 0\<rparr>"

definition consume :: "Simulation \<Rightarrow> Tally \<Rightarrow> Tally" where
  "consume sim t =
     \<lparr>t_attempts = t_attempts t + 1,
      t_drawSum = t_drawSum t + word_of_int (drawsToWinCon sim),
      t_landSum = t_landSum t + word_of_int (openingHandLands sim),
      t_openingWinCount =
        (if openingHandWin sim then t_openingWinCount t + 1 else t_openingWinCount t)\<rparr>"

text \<open>
  The final block of \<open>runScenario\<close>. \<open>fdiv a b\<close> stands for \<open>float64(a) / float64(b)\<close>;
  the zero of \<open>'f\<close> is the zero value of \<open>float64\<close>.
\<close>

definition finish :: "(int64 \<Rightarrow> int64 \<Rightarrow> 'f::zero) \<Rightarrow> Tally \<Rightarrow> 'f Results" where
  "finish fdiv t =
     (if 0 <s t_attempts t
      then \<lparr>attempts = t_attempts t,
            averageDrawsToWin = fdiv (t_drawSum t) (t_attempts t),
            openingHandWins = t_openingWinCount t,
            averageOpeningHandWins = fdiv (t_openingWinCount t) (t_attempts t),
            averageOpeningLands = fdiv (t_landSum t) (t_attempts t)\<rparr>
      else \<lparr>attempts = t_attempts t, averageDrawsToWin = 0, openingHandWins = 0,
            averageOpeningHandWins = 0, averageOpeningLands = 0\<rparr>)"

text \<open>A panic in any worker goroutine ends the whole program.\<close>

fun collect :: "(panic + Simulation) list \<Rightarrow> panic + Simulation list" where
  "collect [] = Inr []"
| "collect (Inl p # rs) = Inl p"
| "collect (Inr sim # rs) = (case collect rs of Inl p \<Rightarrow> Inl p | Inr sims \<Rightarrow> Inr (sim # sims))"

text \<open>
  \<open>runScenario\<close> as a function of the order in which the results reach the consumer:
  \<open>arrival\<close> lists the job indices in that order. The goroutines that produce the order
  are modelled step by step in the next section.
\<close>

definition runScenario ::
  "(int64 \<Rightarrow> rng) \<Rightarrow> (int64 \<Rightarrow> int64 \<Rightarrow> 'f::zero) \<Rightarrow> Config \<Rightarrow> go_int list \<Rightarrow> panic + 'f Results" where
  "runScenario newSource fdiv cfg arrival =
     (case collect (map (simulateJob newSource cfg) arrival) of
        Inl p \<Rightarrow> Inl p
      | Inr sims \<Rightarrow> Inr (finish fdiv (fold consume sims tally0)))"

section \<open>The goroutines of a run\<close>

text \<open>
  The goroutines of \<open>runScenario\<close>, step by step. A state holds the producer's loop
  variable \<open>i\<close>, the contents of the buffered channel \<open>jobs\<close>, for each worker the job it
  has received and not yet answered (if any), the contents of the buffered channel
  \<open>output\<close>, and the consumer's accumulators.
\<close>

record Pipeline =
  p_next :: nat
  p_jobs :: "go_int list"
  p_workers :: "go_int option list"
  p_output :: "Simulation list"
  p_tally :: Tally

text \<open>
  The state after \<open>workerCount\<close> workers have been started: \<open>jobs\<close> has capacity
  \<open>workerCount\<close>, \<open>output\<close> has capacity 10000, both are empty.
\<close>

definition pipeline_init :: "nat \<Rightarrow> Pipeline" where
  "pipeline_init workerCount =
     \<lparr>p_next = 0, p_jobs = [], p_workers = replicate workerCount None, p_output = [],
      p_tally = tally0\<rparr>"

text \<open>
  One step of one goroutine: the producer sends the next index (\<open>jobs <- i\<close>) while
  \<open>i < cfg.runs\<close> and \<open>jobs\<close> has room; an idle worker receives the oldest job; a worker
  that holds a job runs the trial and sends the result (\<open>output <- runSimulation(...)\<close>)
  when \<open>output\<close> has room; the consumer receives the oldest result and adds it to its
  accumulators. A trial that panics ends the program: it has no step.
\<close>

inductive pipeline_step :: "(int64 \<Rightarrow> rng) \<Rightarrow> Config \<Rightarrow> Pipeline \<Rightarrow> Pipeline \<Rightarrow> bool"
  for newSource :: "int64 \<Rightarrow> rng" and cfg :: Config where
  send_job:
    "int (p_next s) < sint (runs cfg) \<Longrightarrow> length (p_jobs s) < length (p_workers s) \<Longrightarrow>
     pipeline_step newSource cfg s
       (s\<lparr>p_next := Suc (p_next s), p_jobs := p_jobs s @ [word_of_nat (p_next s)]\<rparr>)"
| receive_job:
    "w < length (p_workers s) \<Longrightarrow> p_workers s ! w = None \<Longrightarrow> p_jobs s = simIndex # rest \<Longrightarrow>
     pipeline_step newSource cfg s
       (s\<lparr>p_jobs := rest, p_workers := (p_workers s)[w := Some simIndex]\<rparr>)"
| send_result:
    "w < length (p_workers s) \<Longrightarrow> p_workers s ! w = Some simIndex \<Longrightarrow>
     simulateJob newSource cfg simIndex = Inr sim \<Longrightarrow> length (p_output s) < 10000 \<Longrightarrow>
     pipeline_step newSource cfg s
       (s\<lparr>p_workers := (p_workers s)[w := None], p_output := p_output s @ [sim]\<rparr>)"
| receive_result:
    "p_output s = sim # rest \<Longrightarrow>
     pipeline_step newSource cfg s
       (s\<lparr>p_output := rest, p_tally := consume sim (p_tally s)\<rparr>)"

text \<open>
  The run is over when the producer has left its loop, both channels are drained and
  every worker is idle: \<open>jobs\<close> and \<open>output\<close> are closed and \<open>range output\<close> ends.
\<close>

definition pipeline_done :: "Config \<Rightarrow> Pipeline \<Rightarrow> bool" where
  "pipeline_done cfg s \<longleftrightarrow>
     \<not> int (p_next s) < sint (runs cfg) \<and> p_jobs s = [] \<and> list_all (\<lambda>w. w = None) (p_workers s)
     \<and> p_output s = []"

text \<open>The jobs that workers hold, in worker order.\<close>

fun held :: "go_int option list \<Rightarrow> go_int list" where
  "held [] = []"
| "held (None # ws) = held ws"
| "held (Some simIndex # ws) = simIndex # held ws"

text \<open>
  A complete run of \<open>runScenario\<close> with \<open>workerCount\<close> workers that returns \<open>results\<close>.
\<close>

definition runScenario_returns ::
  "(int64 \<Rightarrow> rng) \<Rightarrow> (int64 \<Rightarrow> int64 \<Rightarrow> 'f::zero) \<Rightarrow> nat \<Rightarrow> Config \<Rightarrow> 'f Results \<Rightarrow> bool" where
  "runScenario_returns newSource fdiv workerCount cfg results \<longleftrightarrow>
     (\<exists>s. (pipeline_step newSource cfg)\<^sup>*\<^sup>* (pipeline_init workerCount) s
        \<and> pipeline_done cfg s \<and> results = finish fdiv (p_tally s))"

text \<open>
  What the steps preserve: the consumer's accumulators are those of some list of
  finished trials, \<open>output\<close> holds the results of some further jobs, and these jobs, the
  jobs held by workers, the jobs waiting in \<open>jobs\<close> and the indices not yet sent are
  together exactly the job indices \<open>0 .. runs - 1\<close>.
\<close>

definition pipeline_inv :: "(int64 \<Rightarrow> rng) \<Rightarrow> Config \<Rightarrow> Pipeline \<Rightarrow> bool" where
  "pipeline_inv newSource cfg s \<longleftrightarrow>
     (\<exists>doneJobs outJobs sims.
        map (simulateJob newSource cfg) doneJobs = map Inr sims
        \<and> p_tally s = fold consume sims tally0
        \<and> map (simulateJob newSource cfg) outJobs = map Inr (p_output s)
        \<and> mset doneJobs + mset outJobs + mset (held (p_workers s)) + mset (p_jobs s)
            + mset (map word_of_nat [p_next s ..< nat (sint (runs cfg))])
          = mset (jobIndices cfg))"

section \<open>The configurations of the repository's tests\<close>

text \<open>The configuration of \<open>TestCreateDeckUsesDeckSize\<close>.\<close>

definition testDeckConfig :: Config where
  "testDeckConfig =
     \<lparr>deckSize = 60, lands = 24, combos = 4, required = 2, runs = 1, seed = 1\<rparr>"

text \<open>The configuration of \<open>TestRunScenarioDeterministicWithSeed\<close>.\<close>

definition testRunConfig :: Config where
  "testRunConfig =
     \<lparr>deckSize = 99, lands = 37, combos = 4, required = 2, runs = 5000, seed = 42\<rparr>"

section \<open>Properties of the win check and the draw loop\<close>

lemma checkComboWin_loop_iff:
  "checkComboWin_loop hand req cnt \<longleftrightarrow>
     cnt < req \<and> req \<le> cnt + int (length (filter combo hand))"
proof (induction hand arbitrary: cnt)
  case Nil
  show ?case by simp
next
  case (Cons c hand)
  show ?case
  proof (cases "combo c")
    case True
    then show ?thesis using Cons.IH [of "cnt + 1"] by (simp add: Let_def) arith
  next
    case False
    then show ?thesis using Cons.IH [of cnt] by simp
  qed
qed

lemma checkComboWin_iff:
  "checkComboWin hand req \<longleftrightarrow> 1 \<le> req \<and> req \<le> int (length (filter combo hand))"
  unfolding checkComboWin_def checkComboWin_loop_iff by arith

lemma countOpeningLands_eq:
  "countOpeningLands hand n = n + int (length (filter (\<lambda>c. keyword c = ''land'') hand))"
  by (induction hand arbitrary: n) simp_all

lemma drawLoop_lands: "openingHandLands (drawLoop lib hand req dc ol) = ol"
  by (induction lib arbitrary: hand dc) (simp_all add: Let_def)

lemma drawLoop_not_opening: "\<not> openingHandWin (drawLoop lib hand req dc ol)"
  by (induction lib arbitrary: hand dc) (simp_all add: Let_def)

lemma drawLoop_lower: "dc \<le> drawsToWinCon (drawLoop lib hand req dc ol)"
proof (induction lib arbitrary: hand dc)
  case Nil
  show ?case by simp
next
  case (Cons drawn lib)
  show ?case
    using Cons.IH [where hand = "hand @ [drawn]" and dc = "dc + 1"] by (simp add: Let_def)
qed

lemma drawLoop_upper: "drawsToWinCon (drawLoop lib hand req dc ol) \<le> dc + int (length lib)"
proof (induction lib arbitrary: hand dc)
  case Nil
  show ?case by simp
next
  case (Cons drawn lib)
  show ?case
    using Cons.IH [where hand = "hand @ [drawn]" and dc = "dc + 1"] by (simp add: Let_def)
qed

text \<open>No hand seen before the loop's last draw meets the requirement.\<close>

lemma drawLoop_earlier:
  "int k < drawsToWinCon (drawLoop lib hand req dc ol) - dc \<Longrightarrow>
   \<not> checkComboWin (hand @ take k lib) req \<or> k = 0"
proof (induction lib arbitrary: hand dc k)
  case Nil
  then show ?case by simp
next
  case (Cons drawn lib)
  show ?case
  proof (cases k)
    case 0
    then show ?thesis by simp
  next
    case (Suc j)
    show ?thesis
    proof (cases "checkComboWin (hand @ [drawn]) req")
      case True
      with Cons.prems Suc show ?thesis by (simp add: Let_def)
    next
      case False
      with Cons.prems Suc
      have "int j < drawsToWinCon (drawLoop lib (hand @ [drawn]) req (dc + 1) ol) - (dc + 1)"
        by (simp add: Let_def)
      from Cons.IH [OF this] False Suc show ?thesis
        by (cases j) simp_all
    qed
  qed
qed

text \<open>If the hand at the loop's end does not meet the requirement, the library is used up.\<close>

lemma drawLoop_final:
  "\<not> checkComboWin
       (hand @ take (nat (drawsToWinCon (drawLoop lib hand req dc ol) - dc)) lib) req \<Longrightarrow>
   \<not> checkComboWin hand req \<Longrightarrow>
   drawsToWinCon (drawLoop lib hand req dc ol) = dc + int (length lib)"
proof (induction lib arbitrary: hand dc)
  case Nil
  then show ?case by simp
next
  case (Cons drawn lib)
  show ?case
  proof (cases "checkComboWin (hand @ [drawn]) req")
    case True
    with Cons.prems show ?thesis by (simp add: Let_def)
  next
    case False
    have lo: "dc + 1 \<le> drawsToWinCon (drawLoop lib (hand @ [drawn]) req (dc + 1) ol)"
      by (rule drawLoop_lower)
    then have "nat (drawsToWinCon (drawLoop lib (hand @ [drawn]) req (dc + 1) ol) - dc)
      = Suc (nat (drawsToWinCon (drawLoop lib (hand @ [drawn]) req (dc + 1) ol) - (dc + 1)))"
      by arith
    with Cons.prems(1) False
    have "\<not> checkComboWin ((hand @ [drawn]) @
        take (nat (drawsToWinCon (drawLoop lib (hand @ [drawn]) req (dc + 1) ol) - (dc + 1))) lib)
        req"
      by (simp add: Let_def)
    from Cons.IH [OF this False] False show ?thesis by (simp add: Let_def)
  qed
qed

text \<open>The hand after \<open>k\<close> draws is the first \<open>7 + k\<close> cards of the deck.\<close>

lemma hand_prefix: "take 7 deck @ take k (drop 7 deck) = take (7 + k) deck"
  by (simp add: take_add)

lemma filter_take_le: "length (filter P (take n xs)) \<le> length (filter P xs)"
proof -
  have "length (filter P xs) = length (filter P (take n xs @ drop n xs))" by simp
  also have "\<dots> = length (filter P (take n xs)) + length (filter P (drop n xs))"
    by (simp only: filter_append length_append)
  finally show ?thesis by simp
qed

lemma filter_take_mono:
  "m \<le> n \<Longrightarrow> length (filter P (take m xs)) \<le> length (filter P (take n xs))"
proof -
  assume "m \<le> n"
  then have "take m xs = take m (take n xs)" by (simp add: min_def)
  then show ?thesis using filter_take_le [of P m "take n xs"] by simp
qed

lemma runSimulation_Inr:
  "7 \<le> length deck \<Longrightarrow>
   runSimulation deck req =
     Inr (if checkComboWin (take 7 deck) req
          then \<lparr>drawsToWinCon = 0, openingHandWin = True,
                openingHandLands = countOpeningLands (take 7 deck) 0\<rparr>
          else drawLoop (drop 7 deck) (take 7 deck) req 0 (countOpeningLands (take 7 deck) 0))"
  by (simp add: runSimulation_def Let_def)

lemma runSimulation_Inl: "length deck < 7 \<Longrightarrow> runSimulation deck req = Inl SliceBoundsOutOfRange"
  by (simp add: runSimulation_def)

section \<open>Summary of one trial on a deck of at least seven cards\<close>

lemma runSimulation_draws_bounds:
  assumes "7 \<le> length deck" "runSimulation deck req = Inr sim"
  shows "0 \<le> drawsToWinCon sim" "drawsToWinCon sim \<le> int (length deck) - 7"
proof -
  let ?ol = "countOpeningLands (take 7 deck) 0"
  have lo: "0 \<le> drawsToWinCon (drawLoop (drop 7 deck) (take 7 deck) req 0 ?ol)"
    by (rule drawLoop_lower)
  have "drawsToWinCon (drawLoop (drop 7 deck) (take 7 deck) req 0 ?ol)
      \<le> 0 + int (length (drop 7 deck))"
    by (rule drawLoop_upper)
  with assms(1) have hi: "drawsToWinCon (drawLoop (drop 7 deck) (take 7 deck) req 0 ?ol)
      \<le> int (length deck) - 7"
    by simp
  from assms lo show "0 \<le> drawsToWinCon sim"
    by (auto simp: runSimulation_Inr split: if_splits)
  from assms hi show "drawsToWinCon sim \<le> int (length deck) - 7"
    by (auto simp: runSimulation_Inr split: if_splits)
qed

lemma runSimulation_opening:
  assumes "7 \<le> length deck" "runSimulation deck req = Inr sim"
  shows "openingHandWin sim \<longleftrightarrow> checkComboWin (take 7 deck) req"
  using assms drawLoop_not_opening [of "drop 7 deck" "take 7 deck" req 0]
  by (auto simp: runSimulation_Inr split: if_splits)

lemma runSimulation_opening_draws:
  assumes "7 \<le> length deck" "runSimulation deck req = Inr sim" "checkComboWin (take 7 deck) req"
  shows "drawsToWinCon sim = 0"
  using assms by (auto simp: runSimulation_Inr)

lemma runSimulation_earlier:
  assumes "7 \<le> length deck" "runSimulation deck req = Inr sim" "int k < drawsToWinCon sim"
  shows "\<not> checkComboWin (take (7 + k) deck) req"
proof (cases "checkComboWin (take 7 deck) req")
  case True
  with assms show ?thesis by (simp add: runSimulation_opening_draws)
next
  case False
  let ?ol = "countOpeningLands (take 7 deck) 0"
  from assms False have sim: "sim = drawLoop (drop 7 deck) (take 7 deck) req 0 ?ol"
    by (simp add: runSimulation_Inr)
  with assms(3) have "int k < drawsToWinCon (drawLoop (drop 7 deck) (take 7 deck) req 0 ?ol) - 0"
    by simp
  from drawLoop_earlier [OF this] False show ?thesis
    by (auto simp: hand_prefix)
qed

lemma runSimulation_final:
  assumes "7 \<le> length deck" "runSimulation deck req = Inr sim"
    "\<not> checkComboWin (take (7 + nat (drawsToWinCon sim)) deck) req"
  shows "drawsToWinCon sim = int (length deck) - 7"
proof (cases "checkComboWin (take 7 deck) req")
  case True
  with assms show ?thesis by (simp add: runSimulation_opening_draws)
next
  case False
  let ?ol = "countOpeningLands (take 7 deck) 0"
  from assms False have sim: "sim = drawLoop (drop 7 deck) (take 7 deck) req 0 ?ol"
    by (simp add: runSimulation_Inr)
  with assms(3)
  have "\<not> checkComboWin (take 7 deck @
      take (nat (drawsToWinCon (drawLoop (drop 7 deck) (take 7 deck) req 0 ?ol) - 0))
        (drop 7 deck)) req"
    by (simp add: hand_prefix)
  from drawLoop_final [OF this False] sim assms(1) show ?thesis by simp
qed

section \<open>Claims about a single trial\<close>

lemma drawLoop_record:
  "drawLoop lib hand req dc ol =
     \<lparr>drawsToWinCon = drawsToWinCon (drawLoop lib hand req dc ol), openingHandWin = False,
      openingHandLands = ol\<rparr>"
  by (induction lib arbitrary: hand dc) (simp_all add: Let_def)

text \<open>A deck whose combo pieces never reach the requirement is drawn to the end.\<close>

lemma runSimulation_exhaust:
  assumes "7 \<le> length deck" "\<not> (1 \<le> req \<and> req \<le> int (length (filter combo deck)))"
  shows "runSimulation deck req =
     Inr \<lparr>drawsToWinCon = int (length deck) - 7, openingHandWin = False,
          openingHandLands = int (length (filter (\<lambda>c. keyword c = ''land'') (take 7 deck)))\<rparr>"
proof -
  have never: "\<not> checkComboWin (take n deck) req" for n
    using assms(2) filter_take_le [of combo n deck] by (auto simp: checkComboWin_iff)
  let ?ol = "countOpeningLands (take 7 deck) 0"
  let ?sim = "drawLoop (drop 7 deck) (take 7 deck) req 0 ?ol"
  have run: "runSimulation deck req = Inr ?sim"
    using assms(1) never [of 7] by (simp add: runSimulation_Inr)
  have "drawsToWinCon ?sim = int (length deck) - 7"
    using runSimulation_final [OF assms(1) run never] .
  then have "?sim = \<lparr>drawsToWinCon = int (length deck) - 7, openingHandWin = False,
      openingHandLands = ?ol\<rparr>"
    using drawLoop_record [of "drop 7 deck" "take 7 deck" req 0 ?ol] by simp
  with run show ?thesis by (simp add: countOpeningLands_eq)
qed

text \<open>
  C3. If the deck has at least 7 cards, the requirement is at least 1, and the first 7
  cards hold at least that many combo pieces, the trial returns with \<open>drawsToWinCon = 0\<close>
  and \<open>openingHandWin = true\<close> (and the land count of the opening hand).
\<close>

theorem runSimulation_opening_hand_win:
  assumes "7 \<le> length deck" and "1 \<le> req"
    and "req \<le> int (length (filter combo (take 7 deck)))"
  shows "runSimulation deck req =
     Inr \<lparr>drawsToWinCon = 0, openingHandWin = True,
          openingHandLands = int (length (filter (\<lambda>c. keyword c = ''land'') (take 7 deck)))\<rparr>"
  using assms by (simp add: runSimulation_Inr checkComboWin_iff countOpeningLands_eq)

theorem runSimulation_opening_hand_win_witness:
  "7 \<le> length (replicate 2 \<lparr>keyword = ''non-land'', combo = True\<rparr>
        @ replicate 6 \<lparr>keyword = ''land'', combo = False\<rparr>)
   \<and> (1::int) \<le> 2
   \<and> 2 \<le> int (length (filter combo (take 7 (replicate 2 \<lparr>keyword = ''non-land'', combo = True\<rparr>
        @ replicate 6 \<lparr>keyword = ''land'', combo = False\<rparr>))))
   \<and> runSimulation (replicate 2 \<lparr>keyword = ''non-land'', combo = True\<rparr>
        @ replicate 6 \<lparr>keyword = ''land'', combo = False\<rparr>) 2
      = Inr \<lparr>drawsToWinCon = 0, openingHandWin = True, openingHandLands = 5\<rparr>"
  using runSimulation_opening_hand_win
    [of "replicate 2 \<lparr>keyword = ''non-land'', combo = True\<rparr>
        @ replicate 6 \<lparr>keyword = ''land'', combo = False\<rparr>" 2]
  by simp

text \<open>
  C5. On a deck of at least 7 cards the trial returns, for every requirement, and its
  \<open>drawsToWinCon\<close> lies between 0 and the library size \<open>len(deck) - 7\<close>.
\<close>

theorem runSimulation_exhaustion_bound:
  assumes "7 \<le> length deck"
  shows "\<exists>sim. runSimulation deck req = Inr sim
     \<and> 0 \<le> drawsToWinCon sim \<and> drawsToWinCon sim \<le> int (length deck) - 7"
proof -
  from assms obtain sim where run: "runSimulation deck req = Inr sim"
    by (simp add: runSimulation_Inr)
  with runSimulation_draws_bounds [OF assms run] show ?thesis by simp
qed

theorem runSimulation_exhaustion_bound_witness:
  "7 \<le> length (replicate 9 \<lparr>keyword = ''land'', combo = False\<rparr>)
   \<and> (\<exists>sim. runSimulation (replicate 9 \<lparr>keyword = ''land'', combo = False\<rparr>) 1 = Inr sim
     \<and> 0 \<le> drawsToWinCon sim
     \<and> drawsToWinCon sim \<le> int (length (replicate 9 \<lparr>keyword = ''land'', combo = False\<rparr>)) - 7)"
  using runSimulation_exhaustion_bound [of "replicate 9 \<lparr>keyword = ''land'', combo = False\<rparr>" 1]
  by simp

text \<open>
  C6. A deck of at least 7 cards holding fewer combo pieces than the requirement is drawn
  to the end: \<open>drawsToWinCon = len(deck) - 7\<close> and \<open>openingHandWin = false\<close>.
\<close>

theorem runSimulation_never_winning:
  assumes "7 \<le> length deck" and "1 \<le> req" and "int (length (filter combo deck)) < req"
  shows "runSimulation deck req =
     Inr \<lparr>drawsToWinCon = int (length deck) - 7, openingHandWin = False,
          openingHandLands = int (length (filter (\<lambda>c. keyword c = ''land'') (take 7 deck)))\<rparr>"
  using assms by (intro runSimulation_exhaust) simp_all

theorem runSimulation_never_winning_witness:
  "7 \<le> length (\<lparr>keyword = ''non-land'', combo = True\<rparr>
        # replicate 9 \<lparr>keyword = ''land'', combo = False\<rparr>)
   \<and> (1::int) \<le> 2
   \<and> int (length (filter combo (\<lparr>keyword = ''non-land'', combo = True\<rparr>
        # replicate 9 \<lparr>keyword = ''land'', combo = False\<rparr>))) < 2
   \<and> runSimulation (\<lparr>keyword = ''non-land'', combo = True\<rparr>
        # replicate 9 \<lparr>keyword = ''land'', combo = False\<rparr>) 2
      = Inr \<lparr>drawsToWinCon = 3, openingHandWin = False, openingHandLands = 6\<rparr>"
  using runSimulation_never_winning
    [of "\<lparr>keyword = ''non-land'', combo = True\<rparr>
        # replicate 9 \<lparr>keyword = ''land'', combo = False\<rparr>" 2]
  by simp

text \<open>
  C9. With \<open>required = 0\<close> the win check is false for every hand, so a trial on a deck of
  at least 7 cards never reports an opening-hand win and draws the whole library.
\<close>

theorem required_zero_never_wins:
  "\<not> checkComboWin hand 0 \<and>
   (7 \<le> length deck \<longrightarrow>
     runSimulation deck 0 =
       Inr \<lparr>drawsToWinCon = int (length deck) - 7, openingHandWin = False,
            openingHandLands = int (length (filter (\<lambda>c. keyword c = ''land'') (take 7 deck)))\<rparr>)"
  by (simp add: checkComboWin_iff runSimulation_exhaust)

theorem required_zero_never_wins_witness:
  "\<not> checkComboWin (replicate 3 \<lparr>keyword = ''non-land'', combo = True\<rparr>) 0
   \<and> 7 \<le> length (replicate 8 \<lparr>keyword = ''non-land'', combo = True\<rparr>)
   \<and> runSimulation (replicate 8 \<lparr>keyword = ''non-land'', combo = True\<rparr>) 0
      = Inr \<lparr>drawsToWinCon = 1, openingHandWin = False, openingHandLands = 0\<rparr>"
  using required_zero_never_wins
    [of "replicate 3 \<lparr>keyword = ''non-land'', combo = True\<rparr>"
        "replicate 8 \<lparr>keyword = ''non-land'', combo = True\<rparr>"]
  by simp

section \<open>Monotonicity of the win condition\<close>

lemma filter_take_Suc:
  "i < length xs \<Longrightarrow>
   length (filter P (take (Suc i) xs)) = length (filter P (take i xs)) + (if P (xs ! i) then 1 else 0)"
  by (simp add: take_Suc_conv_app_nth)

text \<open>
  The \<open>r\<close>-th card satisfying \<open>P\<close>: if a prefix holds at least \<open>r \<ge> 1\<close> such cards, some
  card of the prefix satisfies \<open>P\<close> and has exactly \<open>r - 1\<close> such cards before it.
\<close>

lemma rth_card_exists:
  "r \<le> length (filter P (take n xs)) \<Longrightarrow> 1 \<le> r \<Longrightarrow>
   \<exists>i<n. i < length xs \<and> P (xs ! i) \<and> length (filter P (take i xs)) + 1 = r"
proof (induction n)
  case 0
  then show ?case by simp
next
  case (Suc n)
  show ?case
  proof (cases "r \<le> length (filter P (take n xs))")
    case True
    from Suc.IH [OF True Suc.prems(2)] show ?thesis by (auto intro: less_SucI)
  next
    case False
    have len: "n < length xs"
    proof (rule ccontr)
      assume "\<not> n < length xs"
      then have "take (Suc n) xs = take n xs" by simp
      with Suc.prems(1) False show False by simp
    qed
    from False Suc.prems(1) filter_take_Suc [OF len, of P]
    have "P (xs ! n) \<and> length (filter P (take n xs)) + 1 = r"
      by (simp split: if_splits)
    with len show ?thesis by blast
  qed
qed


lemma runSimulation_total: "7 \<le> length deck \<Longrightarrow> \<exists>sim. runSimulation deck req = Inr sim"
  by (simp add: runSimulation_Inr)

text \<open>A smaller requirement is met by the same hand, so the trial stops no later.\<close>

lemma runSimulation_smaller_requirement:
  assumes len: "7 \<le> length deck" and r': "1 \<le> r'" "r' \<le> r"
    and run: "runSimulation deck r = Inr sim"
    and won: "checkComboWin (take (7 + nat (drawsToWinCon sim)) deck) r"
    and run': "runSimulation deck r' = Inr sim'"
  shows "checkComboWin (take (7 + nat (drawsToWinCon sim')) deck) r'"
    and "drawsToWinCon sim' \<le> drawsToWinCon sim"
proof -
  have d0: "0 \<le> drawsToWinCon sim"
    by (rule runSimulation_draws_bounds(1) [OF len run])
  from won r' have won': "checkComboWin (take (7 + nat (drawsToWinCon sim)) deck) r'"
    by (simp add: checkComboWin_iff)
  show le: "drawsToWinCon sim' \<le> drawsToWinCon sim"
  proof (rule ccontr)
    assume "\<not> drawsToWinCon sim' \<le> drawsToWinCon sim"
    with d0 have "int (nat (drawsToWinCon sim)) < drawsToWinCon sim'" by simp
    from runSimulation_earlier [OF len run' this] won' show False by simp
  qed
  show "checkComboWin (take (7 + nat (drawsToWinCon sim')) deck) r'"
  proof (rule ccontr)
    assume lost: "\<not> checkComboWin (take (7 + nat (drawsToWinCon sim')) deck) r'"
    from runSimulation_final [OF len run' lost]
    have "drawsToWinCon sim' = int (length deck) - 7" .
    with le runSimulation_draws_bounds(2) [OF len run]
    have "drawsToWinCon sim' = drawsToWinCon sim" by simp
    with lost won' show False by simp
  qed
qed

text \<open>
  A winning trial stops exactly at the card that is the \<open>r\<close>-th combo piece of the deck:
  card \<open>i\<close> (counted from 0) with exactly \<open>r - 1\<close> combo pieces before it. Cards 0..6 are
  the opening hand (position 0); card \<open>i \<ge> 7\<close> is draw number \<open>i - 6\<close>.
\<close>

lemma runSimulation_rth_combo:
  assumes len: "7 \<le> length deck"
    and run: "runSimulation deck r = Inr sim"
    and won: "checkComboWin (take (7 + nat (drawsToWinCon sim)) deck) r"
  shows "\<exists>i<length deck. combo (deck ! i)
     \<and> int (length (filter combo (take i deck))) + 1 = r
     \<and> drawsToWinCon sim = max 0 (int i - 6)"
proof -
  have d0: "0 \<le> drawsToWinCon sim"
    by (rule runSimulation_draws_bounds(1) [OF len run])
  define n where "n = 7 + nat (drawsToWinCon sim)"
  from won have "1 \<le> r \<and> r \<le> int (length (filter combo (take n deck)))"
    unfolding n_def checkComboWin_iff .
  then have r1: "1 \<le> r" and enough: "r \<le> int (length (filter combo (take n deck)))"
    by blast+
  from r1 enough
  have "nat r \<le> length (filter combo (take n deck))" "1 \<le> nat r"
    by linarith+
  from rth_card_exists [OF this]
  obtain i where i: "i < n" "i < length deck" "combo (deck ! i)"
    "length (filter combo (take i deck)) + 1 = nat r"
    by blast
  from i(4) r1 have cnt: "int (length (filter combo (take i deck))) + 1 = r" by linarith
  have "drawsToWinCon sim = max 0 (int i - 6)"
  proof (cases "drawsToWinCon sim = 0")
    case True
    with i(1) show ?thesis unfolding n_def by simp
  next
    case False
    define m where "m = nat (drawsToWinCon sim) - 1"
    from False d0 have m: "drawsToWinCon sim = int (Suc m)"
      unfolding m_def by linarith
    then have "int m < drawsToWinCon sim" by simp
    from runSimulation_earlier [OF len run this]
    have "\<not> (1 \<le> r \<and> r \<le> int (length (filter combo (take (7 + m) deck))))"
      unfolding checkComboWin_iff .
    with r1 have few: "int (length (filter combo (take (7 + m) deck))) < r"
      by linarith
    have "i = 7 + m"
    proof (rule ccontr)
      assume "i \<noteq> 7 + m"
      with i(1) m have "Suc i \<le> 7 + m" unfolding n_def by simp
      from filter_take_mono [OF this, of combo deck]
      have "length (filter combo (take (Suc i) deck)) \<le> length (filter combo (take (7 + m) deck))" .
      moreover from filter_take_Suc [OF i(2), of combo] i(3)
      have "length (filter combo (take (Suc i) deck)) = length (filter combo (take i deck)) + 1"
        by simp
      ultimately show False using cnt few by linarith
    qed
    with m show ?thesis by simp
  qed
  with i(2,3) cnt show ?thesis by blast
qed

text \<open>
  C7. Fix a deck of at least 7 cards and requirements \<open>1 \<le> r' \<le> r\<close>, and let the trial
  with requirement \<open>r\<close> be won: the hand it returns with (the first
  \<open>7 + drawsToWinCon\<close> cards) meets the requirement. Then the trial with requirement \<open>r'\<close>
  is won as well, with no more draws; and the number of draws of the trial with
  requirement \<open>r\<close> is the position of the \<open>r\<close>-th combo piece in draw order (0 inside
  the opening hand, otherwise the number of the draw that brings it).
\<close>

theorem win_condition_monotone:
  assumes "7 \<le> length deck" and "1 \<le> r'" and "r' \<le> r"
    and "runSimulation deck r = Inr sim"
    and "checkComboWin (take (7 + nat (drawsToWinCon sim)) deck) r"
  shows "(\<exists>sim'. runSimulation deck r' = Inr sim'
       \<and> checkComboWin (take (7 + nat (drawsToWinCon sim')) deck) r'
       \<and> drawsToWinCon sim' \<le> drawsToWinCon sim)
     \<and> (\<exists>i<length deck. combo (deck ! i)
       \<and> int (length (filter combo (take i deck))) + 1 = r
       \<and> drawsToWinCon sim = max 0 (int i - 6))"
proof
  from runSimulation_total [OF assms(1)] obtain sim' where run': "runSimulation deck r' = Inr sim'"
    by blast
  from runSimulation_smaller_requirement [OF assms run'] run'
  show "\<exists>sim'. runSimulation deck r' = Inr sim'
       \<and> checkComboWin (take (7 + nat (drawsToWinCon sim')) deck) r'
       \<and> drawsToWinCon sim' \<le> drawsToWinCon sim"
    by blast
  show "\<exists>i<length deck. combo (deck ! i)
       \<and> int (length (filter combo (take i deck))) + 1 = r
       \<and> drawsToWinCon sim = max 0 (int i - 6)"
    by (rule runSimulation_rth_combo [OF assms(1,4,5)])
qed


theorem win_condition_monotone_witness:
  "7 \<le> length (replicate 7 \<lparr>keyword = ''land'', combo = False\<rparr> @
       [\<lparr>keyword = ''non-land'', combo = True\<rparr>, \<lparr>keyword = ''land'', combo = False\<rparr>,
        \<lparr>keyword = ''non-land'', combo = True\<rparr>])
   \<and> (1::int) \<le> 1 \<and> (1::int) \<le> 2
   \<and> runSimulation (replicate 7 \<lparr>keyword = ''land'', combo = False\<rparr> @
       [\<lparr>keyword = ''non-land'', combo = True\<rparr>, \<lparr>keyword = ''land'', combo = False\<rparr>,
        \<lparr>keyword = ''non-land'', combo = True\<rparr>]) 2 = Inr \<lparr>drawsToWinCon = 3, openingHandWin = False, openingHandLands = 7\<rparr>
   \<and> checkComboWin (take (7 + nat (drawsToWinCon \<lparr>drawsToWinCon = 3, openingHandWin = False, openingHandLands = 7\<rparr>)) (replicate 7 \<lparr>keyword = ''land'', combo = False\<rparr> @
       [\<lparr>keyword = ''non-land'', combo = True\<rparr>, \<lparr>keyword = ''land'', combo = False\<rparr>,
        \<lparr>keyword = ''non-land'', combo = True\<rparr>])) 2
   \<and> (\<exists>sim'. runSimulation (replicate 7 \<lparr>keyword = ''land'', combo = False\<rparr> @
       [\<lparr>keyword = ''non-land'', combo = True\<rparr>, \<lparr>keyword = ''land'', combo = False\<rparr>,
        \<lparr>keyword = ''non-land'', combo = True\<rparr>]) 1 = Inr sim'
       \<and> checkComboWin (take (7 + nat (drawsToWinCon sim')) (replicate 7 \<lparr>keyword = ''land'', combo = False\<rparr> @
       [\<lparr>keyword = ''non-land'', combo = True\<rparr>, \<lparr>keyword = ''land'', combo = False\<rparr>,
        \<lparr>keyword = ''non-land'', combo = True\<rparr>])) 1
       \<and> drawsToWinCon sim' \<le> drawsToWinCon \<lparr>drawsToWinCon = 3, openingHandWin = False, openingHandLands = 7\<rparr>)
   \<and> (\<exists>i<length (replicate 7 \<lparr>keyword = ''land'', combo = False\<rparr> @
       [\<lparr>keyword = ''non-land'', combo = True\<rparr>, \<lparr>keyword = ''land'', combo = False\<rparr>,
        \<lparr>keyword = ''non-land'', combo = True\<rparr>]). combo ((replicate 7 \<lparr>keyword = ''land'', combo = False\<rparr> @
       [\<lparr>keyword = ''non-land'', combo = True\<rparr>, \<lparr>keyword = ''land'', combo = False\<rparr>,
        \<lparr>keyword = ''non-land'', combo = True\<rparr>]) ! i)
       \<and> int (length (filter combo (take i (replicate 7 \<lparr>keyword = ''land'', combo = False\<rparr> @
       [\<lparr>keyword = ''non-land'', combo = True\<rparr>, \<lparr>keyword = ''land'', combo = False\<rparr>,
        \<lparr>keyword = ''non-land'', combo = True\<rparr>])))) + 1 = 2
       \<and> drawsToWinCon \<lparr>drawsToWinCon = 3, openingHandWin = False, openingHandLands = 7\<rparr> = max 0 (int i - 6))"
proof -
  let ?deck = "(replicate 7 \<lparr>keyword = ''land'', combo = False\<rparr> @
       [\<lparr>keyword = ''non-land'', combo = True\<rparr>, \<lparr>keyword = ''land'', combo = False\<rparr>,
        \<lparr>keyword = ''non-land'', combo = True\<rparr>])"
  let ?sim = "\<lparr>drawsToWinCon = 3, openingHandWin = False, openingHandLands = 7\<rparr>"
  have h1: "7 \<le> length ?deck" by simp
  have h2: "(1::int) \<le> 1" and h3: "(1::int) \<le> 2" by simp_all
  have h4: "runSimulation ?deck 2 = Inr ?sim" by code_simp
  have h5: "checkComboWin (take (7 + nat (drawsToWinCon ?sim)) ?deck) 2" by code_simp
  from win_condition_monotone [OF h1 h2 h3 h4 h5] h1 h2 h3 h4 h5 show ?thesis by blast
qed

section \<open>Seed derivation\<close>

lemma unat_xor_shift: "unat (x XOR drop_bit n x) = unat x XOR (unat x div 2 ^ n)"
  for x :: "64 word"
proof -
  have "unat (drop_bit n x) = unat x div 2 ^ n"
    unfolding unat_drop_bit_eq by (rule drop_bit_eq_div)
  then show ?thesis by (simp only: unsigned_xor_eq)
qed

lemma unat_mix_step:
  "unat ((x XOR drop_bit n x) * c) = ((unat x XOR (unat x div 2 ^ n)) * unat c) mod 2 ^ 64"
  for x c :: "64 word"
  by (simp add: unat_word_ariths unat_xor_shift)

lemma unat_seed_start:
  "unat (b + i + c) = (unat b + unat i + unat c) mod 2 ^ 64"
  for b i c :: "64 word"
  by (simp add: unat_word_ariths mod_add_left_eq)

lemma unat_consts:
  "unat (0x9e3779b97f4a7c15 :: 64 word) = 0x9e3779b97f4a7c15"
  "unat (0xbf58476d1ce4e5b9 :: 64 word) = 0xbf58476d1ce4e5b9"
  "unat (0x94d049bb133111eb :: 64 word) = 0x94d049bb133111eb"
  by simp_all

text \<open>
  C8. \<open>simSeed\<close> is a function of \<open>(baseSeed, simIndex)\<close> alone, and read as unsigned
  64-bit numbers it is the splitmix-style mixing in arithmetic modulo \<open>2^64\<close>.
\<close>

theorem simSeed_is_splitmix:
  "unat (simSeed baseSeed simIndex) = splitmix_spec (unat baseSeed) (unat simIndex)"
  unfolding simSeed_def splitmix_spec_def Let_def
  by (simp only: unat_xor_shift unat_mix_step unat_seed_start unat_consts)

section \<open>Validation\<close>

text \<open>What \<open>validateConfig\<close> accepts, with the sum \<open>lands + combos\<close> as Go computes it.\<close>

lemma validateConfig_None_iff:
  "validateConfig cfg = None \<longleftrightarrow>
     7 \<le> sint (deckSize cfg) \<and> 0 \<le> sint (lands cfg) \<and> 0 \<le> sint (combos cfg)
     \<and> 1 \<le> sint (required cfg) \<and> sint (required cfg) \<le> sint (combos cfg)
     \<and> sint (lands cfg + combos cfg) \<le> sint (deckSize cfg)
     \<and> 1 \<le> sint (runs cfg)"
  by (simp add: validateConfig_def word_sless_alt not_less)

text \<open>The sum of two non-negative Go \<open>int\<close>s is exact as long as it stays below \<open>2^63\<close>.\<close>

lemma sint_add_exact:
  fixes a b :: "64 word"
  assumes "0 \<le> sint a" "0 \<le> sint b" "sint a + sint b < 2 ^ 63"
  shows "sint (a + b) = sint a + sint b"
proof -
  have "sint (a + b) = signed_take_bit 63 (sint a + sint b)"
    by (simp add: sint_word_ariths)
  also from assms have "\<dots> = sint a + sint b"
    by (intro signed_take_bit_int_eq_self) simp_all
  finally show ?thesis .
qed

text \<open>
  As long as \<open>lands + combos\<close> does not overflow, \<open>validateConfig\<close> returns an error
  exactly when one of the listed conditions holds.
\<close>

lemma validateConfig_error_iff:
  assumes "sint (lands cfg) + sint (combos cfg) < 2 ^ 63"
  shows "validateConfig cfg \<noteq> None \<longleftrightarrow>
     sint (deckSize cfg) < 7 \<or> sint (lands cfg) < 0 \<or> sint (combos cfg) < 0
     \<or> sint (required cfg) < 1 \<or> sint (required cfg) > sint (combos cfg)
     \<or> sint (lands cfg) + sint (combos cfg) > sint (deckSize cfg)
     \<or> sint (runs cfg) < 1"
proof (cases "0 \<le> sint (lands cfg) \<and> 0 \<le> sint (combos cfg)")
  case True
  with assms have "sint (lands cfg + combos cfg) = sint (lands cfg) + sint (combos cfg)"
    by (simp add: sint_add_exact)
  then show ?thesis unfolding validateConfig_None_iff by linarith
next
  case False
  then show ?thesis unfolding validateConfig_None_iff by linarith
qed

text \<open>
  C4. \<open>validateConfig\<close> is meant to reject every configuration with
  \<open>lands + combos > deckSize\<close>. The sum is computed on Go \<open>int\<close>s and wraps: with
  \<open>lands = 9223372036854775807\<close> (the largest \<open>int\<close>) and the default values of the other
  flags, \<open>lands + combos\<close> is negative and the configuration is accepted, although the
  true sum exceeds the deck size.
\<close>

theorem validateConfig_accepts_overcommitted_deck:
  "validateConfig \<lparr>deckSize = 99, lands = 9223372036854775807, combos = 4, required = 2,
       runs = 10000000, seed = 1\<rparr> = None
   \<and> sint (99 :: go_int) < sint (9223372036854775807 :: go_int) + sint (4 :: go_int)"
  by (simp add: validateConfig_None_iff)

section \<open>Deck construction\<close>

lemma appendCards_eq: "appendCards i n c deck = deck @ replicate (nat (n - i)) c"
proof (induction i n c deck rule: appendCards.induct)
  case (1 i n c deck)
  show ?case
  proof (cases "i < n")
    case True
    then have "nat (n - i) = Suc (nat (n - (i + 1)))" by linarith
    then have "deck @ replicate (nat (n - i)) c = (deck @ [c]) @ replicate (nat (n - (i + 1))) c"
      by simp
    moreover from True have "appendCards i n c deck = appendCards (i + 1) n c (deck @ [c])"
      by (subst appendCards.simps) simp
    ultimately show ?thesis using "1.IH" [OF True] by simp
  next
    case False
    then have "appendCards i n c deck = deck" by (subst appendCards.simps) simp
    with False show ?thesis by simp
  qed
qed

text \<open>Shuffling permutes the deck: every swap is between two positions of the slice.\<close>

lemma rand_Shuffle_loop_mset:
  "k < length deck \<or> k = 0 \<Longrightarrow>
   mset (fst (rand_Shuffle_loop k (\<lambda>i j deck. deck[i := deck ! j, j := deck ! i]) g deck))
     = mset deck"
proof (induction k arbitrary: g deck)
  case 0
  show ?case by simp
next
  case (Suc k)
  then have k: "Suc k < length deck" by simp
  define j where "j = g 0 mod (Suc k + 1)"
  define deck' where "deck' = deck[Suc k := deck ! j, j := deck ! Suc k]"
  have "j < Suc k + 1" unfolding j_def by (rule mod_less_divisor) simp
  with k have j: "j < length deck" by simp
  have perm: "mset deck' = mset deck"
    unfolding deck'_def by (rule mset_swap [OF j k])
  have "length deck' = length deck" unfolding deck'_def by simp
  with k have "k < length deck' \<or> k = 0" by simp
  from Suc.IH [OF this, of "\<lambda>i. g (Suc i)"] perm
  show ?case by (simp add: rng_intn_def j_def deck'_def)
qed

lemma shuffleDeck_mset: "mset (fst (shuffleDeck deck g)) = mset deck"
  unfolding shuffleDeck_def rand_Shuffle_def
  by (rule rand_Shuffle_loop_mset) (cases deck; simp)

lemma createDeck_mset:
  "mset (fst (createDeck cfg g)) =
     mset (replicate (nat (sint (lands cfg))) \<lparr>keyword = ''land'', combo = False\<rparr>
         @ replicate (nat (sint (deckSize cfg - lands cfg - combos cfg)))
             \<lparr>keyword = ''non-land'', combo = False\<rparr>
         @ replicate (nat (sint (combos cfg))) \<lparr>keyword = ''non-land'', combo = True\<rparr>)"
  unfolding createDeck_def Let_def shuffleDeck_mset appendCards_eq by simp

lemma sint_sub_exact:
  fixes a b :: "64 word"
  assumes "0 \<le> sint b" "sint b \<le> sint a"
  shows "sint (a - b) = sint a - sint b"
proof -
  have "sint a < 2 ^ 63" using sint_lt [of a] by simp
  with assms have "- (2 ^ 63) \<le> sint a - sint b" "sint a - sint b < 2 ^ 63" by linarith+
  then have "signed_take_bit 63 (sint a - sint b) = sint a - sint b"
    by (intro signed_take_bit_int_eq_self)
  then show ?thesis by (simp add: sint_word_ariths)
qed


lemma mset_eq_filter_length:
  "mset xs = mset ys \<Longrightarrow> length (filter P xs) = length (filter P ys)"
proof -
  assume "mset xs = mset ys"
  then have "mset (filter P xs) = mset (filter P ys)" by (simp only: mset_filter)
  then show ?thesis by (rule mset_eq_length)
qed

lemma plain_count_exact:
  assumes "0 \<le> sint (lands cfg)" and "0 \<le> sint (combos cfg)"
    and "sint (lands cfg) + sint (combos cfg) \<le> sint (deckSize cfg)"
  shows "sint (deckSize cfg - lands cfg - combos cfg)
      = sint (deckSize cfg) - sint (lands cfg) - sint (combos cfg)"
proof -
  from assms have "sint (deckSize cfg - lands cfg) = sint (deckSize cfg) - sint (lands cfg)"
    by (intro sint_sub_exact) linarith+
  with assms show ?thesis by (simp add: sint_sub_exact)
qed

lemma createDeck_length:
  "length (fst (createDeck cfg g)) =
     nat (sint (lands cfg)) + nat (sint (deckSize cfg - lands cfg - combos cfg))
       + nat (sint (combos cfg))"
  using mset_eq_length [OF createDeck_mset [of cfg g]] by simp

text \<open>
  Every configuration that \<open>validateConfig\<close> accepts yields a deck of at least 7 cards,
  also when \<open>lands + combos\<close> overflows (the deck is then far longer than \<open>deckSize\<close>).
\<close>

lemma validated_deck_length:
  assumes "validateConfig cfg = None"
  shows "7 \<le> length (fst (createDeck cfg g))"
proof -
  from assms have D: "7 \<le> sint (deckSize cfg)" and L: "0 \<le> sint (lands cfg)"
    and C: "0 \<le> sint (combos cfg)" and S: "sint (lands cfg + combos cfg) \<le> sint (deckSize cfg)"
    unfolding validateConfig_None_iff by blast+
  show ?thesis
  proof (cases "sint (lands cfg) + sint (combos cfg) < 7")
    case True
    with L C have "sint (lands cfg + combos cfg) = sint (lands cfg) + sint (combos cfg)"
      by (intro sint_add_exact) simp_all
    with S have le: "sint (lands cfg) + sint (combos cfg) \<le> sint (deckSize cfg)" by simp
    from plain_count_exact [OF L C le] L C le D show ?thesis
      unfolding createDeck_length by linarith
  next
    case False
    with L C show ?thesis unfolding createDeck_length by linarith
  qed
qed

text \<open>
  C2. For a configuration with \<open>lands \<ge> 0\<close>, \<open>combos \<ge> 0\<close> and
  \<open>lands + combos \<le> deckSize\<close>, and every random stream, the deck returned by
  \<open>createDeck\<close> has exactly \<open>deckSize\<close> cards: \<open>lands\<close> lands, \<open>combos\<close> combo-marked
  non-lands and \<open>deckSize - lands - combos\<close> plain non-lands; no land is marked as a
  combo piece.
\<close>

theorem createDeck_composition:
  assumes "0 \<le> sint (lands cfg)" and "0 \<le> sint (combos cfg)"
    and "sint (lands cfg) + sint (combos cfg) \<le> sint (deckSize cfg)"
  shows "int (length (fst (createDeck cfg g))) = sint (deckSize cfg)
    \<and> int (length (filter (\<lambda>c. keyword c = ''land'') (fst (createDeck cfg g))))
        = sint (lands cfg)
    \<and> int (length (filter (\<lambda>c. keyword c = ''non-land'' \<and> combo c) (fst (createDeck cfg g))))
        = sint (combos cfg)
    \<and> int (length (filter (\<lambda>c. keyword c = ''non-land'' \<and> \<not> combo c) (fst (createDeck cfg g))))
        = sint (deckSize cfg) - sint (lands cfg) - sint (combos cfg)
    \<and> (\<forall>c \<in> set (fst (createDeck cfg g)). keyword c = ''land'' \<longrightarrow> \<not> combo c)"
proof -
  let ?L = "nat (sint (lands cfg))"
  let ?N = "nat (sint (deckSize cfg - lands cfg - combos cfg))"
  let ?C = "nat (sint (combos cfg))"
  let ?built = "replicate ?L \<lparr>keyword = ''land'', combo = False\<rparr>
      @ replicate ?N \<lparr>keyword = ''non-land'', combo = False\<rparr>
      @ replicate ?C \<lparr>keyword = ''non-land'', combo = True\<rparr>"
  have perm: "mset (fst (createDeck cfg g)) = mset ?built"
    by (rule createDeck_mset)
  from plain_count_exact [OF assms] assms have N: "int ?N = sint (deckSize cfg) - sint (lands cfg) - sint (combos cfg)"
    by simp
  from assms have L: "int ?L = sint (lands cfg)" and C: "int ?C = sint (combos cfg)"
    by simp_all
  have "length (fst (createDeck cfg g)) = length ?built"
    by (rule mset_eq_length [OF perm])
  then have len: "int (length (fst (createDeck cfg g))) = sint (deckSize cfg)"
    using L N C by simp
  have "length (filter (\<lambda>c. keyword c = ''land'') (fst (createDeck cfg g))) = ?L"
    by (simp add: mset_eq_filter_length [OF perm])
  then have nl: "int (length (filter (\<lambda>c. keyword c = ''land'') (fst (createDeck cfg g))))
      = sint (lands cfg)"
    using L by simp
  have "length (filter (\<lambda>c. keyword c = ''non-land'' \<and> combo c) (fst (createDeck cfg g))) = ?C"
    by (simp add: mset_eq_filter_length [OF perm])
  then have nc: "int (length (filter (\<lambda>c. keyword c = ''non-land'' \<and> combo c)
      (fst (createDeck cfg g)))) = sint (combos cfg)"
    using C by simp
  have "length (filter (\<lambda>c. keyword c = ''non-land'' \<and> \<not> combo c) (fst (createDeck cfg g))) = ?N"
    by (simp add: mset_eq_filter_length [OF perm])
  then have np: "int (length (filter (\<lambda>c. keyword c = ''non-land'' \<and> \<not> combo c)
      (fst (createDeck cfg g)))) = sint (deckSize cfg) - sint (lands cfg) - sint (combos cfg)"
    using N by simp
  have "set (fst (createDeck cfg g)) = set ?built"
    by (rule mset_eq_setD [OF perm])
  then have "\<forall>c \<in> set (fst (createDeck cfg g)). keyword c = ''land'' \<longrightarrow> \<not> combo c"
    by auto
  with len nl nc np show ?thesis by blast
qed

theorem createDeck_composition_witness:
  "0 \<le> sint (lands testDeckConfig) \<and> 0 \<le> sint (combos testDeckConfig)
   \<and> sint (lands testDeckConfig) + sint (combos testDeckConfig) \<le> sint (deckSize testDeckConfig)
   \<and> int (length (fst (createDeck testDeckConfig (\<lambda>k. 3 * k + 1)))) = 60
   \<and> int (length (filter (\<lambda>c. keyword c = ''land'')
          (fst (createDeck testDeckConfig (\<lambda>k. 3 * k + 1))))) = 24
   \<and> int (length (filter (\<lambda>c. keyword c = ''non-land'' \<and> combo c)
          (fst (createDeck testDeckConfig (\<lambda>k. 3 * k + 1))))) = 4
   \<and> int (length (filter (\<lambda>c. keyword c = ''non-land'' \<and> \<not> combo c)
          (fst (createDeck testDeckConfig (\<lambda>k. 3 * k + 1))))) = 32
   \<and> \<not> (\<exists>c \<in> set (fst (createDeck testDeckConfig (\<lambda>k. 3 * k + 1))).
          keyword c = ''land'' \<and> combo c)"
proof -
  have h1: "0 \<le> sint (lands testDeckConfig)" and h2: "0 \<le> sint (combos testDeckConfig)"
    and h3: "sint (lands testDeckConfig) + sint (combos testDeckConfig)
      \<le> sint (deckSize testDeckConfig)"
    by (simp_all add: testDeckConfig_def)
  have v: "sint (deckSize testDeckConfig) = 60" "sint (lands testDeckConfig) = 24"
    "sint (combos testDeckConfig) = 4"
    by (simp_all add: testDeckConfig_def)
  from createDeck_composition [OF h1 h2 h3, of "\<lambda>k. 3 * k + 1"] h1 h2 h3
  show ?thesis unfolding v by simp
qed

section \<open>Safety of the opening-hand split\<close>

text \<open>
  C10. \<open>runSimulation\<close> returns normally exactly when the deck has at least 7 cards, and
  panics on the split \<open>deck[:7], deck[7:]\<close> exactly when it has fewer. Every
  configuration accepted by \<open>validateConfig\<close> makes \<open>createDeck\<close> return a deck of at
  least 7 cards, so the trial a worker runs on it does not panic.
\<close>

theorem runSimulation_safe_iff:
  "((\<exists>sim. runSimulation deck req = Inr sim) \<longleftrightarrow> 7 \<le> length deck)
   \<and> (runSimulation deck req = Inl SliceBoundsOutOfRange \<longleftrightarrow> length deck < 7)
   \<and> (validateConfig cfg = None \<longrightarrow>
        7 \<le> length (fst (createDeck cfg g))
        \<and> (\<exists>sim. simulateJob newSource cfg simIndex = Inr sim))"
proof (intro conjI impI)
  show "(\<exists>sim. runSimulation deck req = Inr sim) \<longleftrightarrow> 7 \<le> length deck"
    by (cases "7 \<le> length deck") (simp_all add: runSimulation_Inr runSimulation_Inl)
  show "runSimulation deck req = Inl SliceBoundsOutOfRange \<longleftrightarrow> length deck < 7"
    by (cases "7 \<le> length deck") (simp_all add: runSimulation_Inr runSimulation_Inl)
next
  assume ok: "validateConfig cfg = None"
  then show "7 \<le> length (fst (createDeck cfg g))" by (rule validated_deck_length)
  from ok have "7 \<le> length (fst (createDeck cfg (newSource (simSeed (seed cfg) simIndex))))"
    by (rule validated_deck_length)
  then show "\<exists>sim. simulateJob newSource cfg simIndex = Inr sim"
    unfolding simulateJob_def Let_def by (rule runSimulation_total)
qed

theorem runSimulation_safe_iff_witness:
  "validateConfig testDeckConfig = None
   \<and> 7 \<le> length (fst (createDeck testDeckConfig (\<lambda>k. 3 * k + 1)))
   \<and> (\<exists>sim. simulateJob (\<lambda>s k. unat s + k) testDeckConfig 0 = Inr sim)
   \<and> runSimulation (replicate 6 \<lparr>keyword = ''land'', combo = False\<rparr>) 2
       = Inl SliceBoundsOutOfRange
   \<and> (\<exists>sim. runSimulation (replicate 7 \<lparr>keyword = ''land'', combo = False\<rparr>) 2 = Inr sim)"
proof -
  have ok: "validateConfig testDeckConfig = None"
    by (simp add: validateConfig_None_iff testDeckConfig_def)
  from runSimulation_safe_iff
    [of "replicate 6 \<lparr>keyword = ''land'', combo = False\<rparr>" 2 testDeckConfig
        "\<lambda>k. 3 * k + 1" "\<lambda>s k. unat s + k" 0]
    runSimulation_safe_iff
    [of "replicate 7 \<lparr>keyword = ''land'', combo = False\<rparr>" 2 testDeckConfig
        "\<lambda>k. 3 * k + 1" "\<lambda>s k. unat s + k" 0]
    ok
  show ?thesis by simp
qed

section \<open>Determinism of a full run\<close>

text \<open>The consumer's update does not depend on the order of two results.\<close>

lemma consume_commute: "consume a (consume b t) = consume b (consume a t)"
  by (simp add: consume_def)

lemma fold_consume_mset:
  assumes "mset sims1 = mset sims2"
  shows "fold consume sims1 t = fold consume sims2 t"
proof -
  have "fold consume sims1 = fold consume sims2"
    by (rule fold_multiset_equiv [OF _ assms]) (simp add: fun_eq_iff consume_commute)
  then show ?thesis by simp
qed

text \<open>\<open>collect\<close> succeeds exactly on a list of normal results, and returns them in order.\<close>

lemma collect_Inr_iff: "collect rs = Inr sims \<longleftrightarrow> rs = map Inr sims"
proof (induction rs arbitrary: sims rule: collect.induct)
  case 1
  show ?case by auto
next
  case (2 p rs)
  show ?case by auto
next
  case (3 sim rs)
  show ?case
  proof (cases "collect rs")
    case (Inl p)
    have "rs \<noteq> map Inr ss" for ss
      using "3.IH" [of ss] Inl by simp
    with Inl show ?thesis by (cases sims) auto
  next
    case (Inr ss)
    have rs: "rs = map Inr ss"
      using "3.IH" [of ss] Inr by simp
    show ?thesis
    proof (cases sims)
      case Nil
      then show ?thesis using Inr by simp
    next
      case (Cons s' sims')
      have "inj (Inr :: Simulation \<Rightarrow> panic + Simulation)" by (rule inj_Inr)
      then have "(map Inr ss = (map Inr sims' :: (panic + Simulation) list)) = (ss = sims')"
        by (rule inj_map_eq_map)
      with Cons Inr rs show ?thesis by auto
    qed
  qed
qed

lemma collect_map_Inr: "collect (map Inr sims) = Inr sims"
  by (simp add: collect_Inr_iff)

lemma collect_Inl: "\<forall>sims. rs \<noteq> map Inr sims \<Longrightarrow> collect rs = Inl SliceBoundsOutOfRange"
proof -
  assume no: "\<forall>sims. rs \<noteq> map Inr sims"
  show ?thesis
  proof (cases "collect rs")
    case (Inl p)
    then show ?thesis by (cases p) simp
  next
    case (Inr sims)
    with no show ?thesis by (simp add: collect_Inr_iff)
  qed
qed

text \<open>Two lists of results with the same elements are collected alike.\<close>

lemma collect_mset:
  assumes "mset rs1 = mset rs2"
  shows "(case collect rs1 of Inl p \<Rightarrow> Inl p | Inr sims \<Rightarrow> Inr (fold consume sims t))
       = (case collect rs2 of Inl p \<Rightarrow> Inl p | Inr sims \<Rightarrow> Inr (fold consume sims t))"
proof -
  have all_Inr: "rs' = map Inr (map projr rs')"
    if "rs = map Inr sims" "set rs' = set rs" for rs rs' :: "(panic + Simulation) list" and sims
  proof -
    from that have "\<forall>r \<in> set rs'. \<exists>sim. r = Inr sim" by auto
    then show ?thesis by (induction rs') auto
  qed
  from assms have sets: "set rs1 = set rs2" by (metis set_mset_mset)
  have "mset (map projr rs1) = image_mset projr (mset rs1)" by (rule mset_map)
  also have "\<dots> = image_mset projr (mset rs2)" by (simp only: assms)
  also have "\<dots> = mset (map projr rs2)" by (rule mset_map [symmetric])
  finally have perm: "mset (map projr rs1) = mset (map projr rs2)" .
  show ?thesis
  proof (cases "\<exists>sims. rs1 = map Inr sims")
    case True
    then obtain sims1 where "rs1 = map Inr sims1" by blast
    from all_Inr [OF this refl] all_Inr [OF this sets [symmetric]]
    have rs1: "rs1 = map Inr (map projr rs1)" and rs2: "rs2 = map Inr (map projr rs2)" .
    have "collect rs1 = Inr (map projr rs1)" by (subst rs1) (rule collect_map_Inr)
    moreover have "collect rs2 = Inr (map projr rs2)" by (subst rs2) (rule collect_map_Inr)
    ultimately show ?thesis by (simp add: fold_consume_mset [OF perm])
  next
    case False
    then have no1: "\<forall>sims. rs1 \<noteq> map Inr sims" by blast
    have no2: "\<forall>sims. rs2 \<noteq> map Inr sims"
    proof (intro allI notI)
      fix sims assume "rs2 = map Inr sims"
      from all_Inr [OF this sets] no1 show False by blast
    qed
    from collect_Inl [OF no1] collect_Inl [OF no2] show ?thesis by simp
  qed
qed

text \<open>The result depends on the arrival order only through the jobs that arrive.\<close>

lemma runScenario_arrival_order:
  assumes "mset arrival1 = mset arrival2"
  shows "runScenario newSource fdiv cfg arrival1 = runScenario newSource fdiv cfg arrival2"
proof -
  from assms have "mset (map (simulateJob newSource cfg) arrival1)
      = mset (map (simulateJob newSource cfg) arrival2)"
    by (simp only: mset_map)
  from collect_mset [OF this, of tally0] show ?thesis
    unfolding runScenario_def by (auto split: sum.splits)
qed

section \<open>Every schedule gives the same result\<close>

lemma held_replicate_None: "held (replicate n None) = []"
  by (induction n) simp_all

lemma held_all_None: "list_all (\<lambda>w. w = None) ws \<Longrightarrow> held ws = []"
  by (induction ws) simp_all

lemma held_take_job:
  "w < length ws \<Longrightarrow> ws ! w = None \<Longrightarrow>
   mset (held (ws[w := Some j])) = add_mset j (mset (held ws))"
proof (induction ws arbitrary: w)
  case Nil
  then show ?case by simp
next
  case (Cons a ws)
  show ?case
  proof (cases w)
    case 0
    with Cons.prems show ?thesis by simp
  next
    case (Suc v)
    with Cons.prems have "mset (held (ws[v := Some j])) = add_mset j (mset (held ws))"
      by (intro Cons.IH) simp_all
    with Suc show ?thesis by (cases a) simp_all
  qed
qed

lemma held_give_result:
  "w < length ws \<Longrightarrow> ws ! w = Some j \<Longrightarrow>
   mset (held ws) = add_mset j (mset (held (ws[w := None])))"
proof (induction ws arbitrary: w)
  case Nil
  then show ?case by simp
next
  case (Cons a ws)
  show ?case
  proof (cases w)
    case 0
    with Cons.prems show ?thesis by simp
  next
    case (Suc v)
    with Cons.prems have "mset (held ws) = add_mset j (mset (held (ws[v := None])))"
      by (intro Cons.IH) simp_all
    with Suc show ?thesis by (cases a) simp_all
  qed
qed

lemma pipeline_invI:
  "map (simulateJob newSource cfg) doneJobs = map Inr sims \<Longrightarrow>
   p_tally s = fold consume sims tally0 \<Longrightarrow>
   map (simulateJob newSource cfg) outJobs = map Inr (p_output s) \<Longrightarrow>
   mset doneJobs + mset outJobs + mset (held (p_workers s)) + mset (p_jobs s)
       + mset (map word_of_nat [p_next s ..< nat (sint (runs cfg))])
     = mset (jobIndices cfg) \<Longrightarrow>
   pipeline_inv newSource cfg s"
  unfolding pipeline_inv_def by blast

lemma pipeline_inv_init: "pipeline_inv newSource cfg (pipeline_init workerCount)"
  unfolding pipeline_inv_def pipeline_init_def
  by (rule exI [of _ "[]"], rule exI [of _ "[]"], rule exI [of _ "[]"])
     (simp add: held_replicate_None jobIndices_def)

lemma pipeline_inv_step:
  assumes "pipeline_step newSource cfg s s'" and "pipeline_inv newSource cfg s"
  shows "pipeline_inv newSource cfg s'"
proof -
  from assms(2) obtain doneJobs outJobs sims where
    dn: "map (simulateJob newSource cfg) doneJobs = map Inr sims"
    and tl: "p_tally s = fold consume sims tally0"
    and out: "map (simulateJob newSource cfg) outJobs = map Inr (p_output s)"
    and all: "mset doneJobs + mset outJobs + mset (held (p_workers s)) + mset (p_jobs s)
            + mset (map word_of_nat [p_next s ..< nat (sint (runs cfg))])
          = mset (jobIndices cfg)"
    unfolding pipeline_inv_def by blast
  from assms(1) show ?thesis
  proof cases
    case send_job
    from send_job(2) have "p_next s < nat (sint (runs cfg))" by linarith
    then have "[p_next s ..< nat (sint (runs cfg))]
        = p_next s # [Suc (p_next s) ..< nat (sint (runs cfg))]"
      by (rule upt_conv_Cons)
    with all have "mset doneJobs + mset outJobs + mset (held (p_workers s'))
        + mset (p_jobs s')
        + mset (map word_of_nat [p_next s' ..< nat (sint (runs cfg))])
      = mset (jobIndices cfg)"
      unfolding send_job(1) by simp
    moreover from tl have "p_tally s' = fold consume sims tally0"
      unfolding send_job(1) by simp
    moreover from out have "map (simulateJob newSource cfg) outJobs = map Inr (p_output s')"
      unfolding send_job(1) by simp
    ultimately show ?thesis using dn by (intro pipeline_invI)
  next
    case (receive_job w simIndex rest)
    from held_take_job [OF receive_job(2,3)] all receive_job(4)
    have "mset doneJobs + mset outJobs + mset (held (p_workers s'))
        + mset (p_jobs s')
        + mset (map word_of_nat [p_next s' ..< nat (sint (runs cfg))])
      = mset (jobIndices cfg)"
      unfolding receive_job(1) by simp
    moreover from tl have "p_tally s' = fold consume sims tally0"
      unfolding receive_job(1) by simp
    moreover from out have "map (simulateJob newSource cfg) outJobs = map Inr (p_output s')"
      unfolding receive_job(1) by simp
    ultimately show ?thesis using dn by (intro pipeline_invI)
  next
    case (send_result w simIndex sim)
    from held_give_result [OF send_result(2,3)] all
    have "mset doneJobs + mset (outJobs @ [simIndex]) + mset (held (p_workers s'))
        + mset (p_jobs s')
        + mset (map word_of_nat [p_next s' ..< nat (sint (runs cfg))])
      = mset (jobIndices cfg)"
      unfolding send_result(1) by simp
    moreover from out send_result(4)
    have "map (simulateJob newSource cfg) (outJobs @ [simIndex]) = map Inr (p_output s')"
      unfolding send_result(1) by simp
    moreover from tl have "p_tally s' = fold consume sims tally0"
      unfolding send_result(1) by simp
    ultimately show ?thesis using dn by (intro pipeline_invI)
  next
    case (receive_result sim rest)
    from out receive_result(2) obtain simIndex outJobs' where
      oj: "outJobs = simIndex # outJobs'"
      and sim: "simulateJob newSource cfg simIndex = Inr sim"
      and out': "map (simulateJob newSource cfg) outJobs' = map Inr rest"
      by (cases outJobs) auto
    from dn sim have "map (simulateJob newSource cfg) (doneJobs @ [simIndex]) = map Inr (sims @ [sim])"
      by simp
    moreover from tl have "p_tally s' = fold consume (sims @ [sim]) tally0"
      unfolding receive_result(1) by simp
    moreover from out' have "map (simulateJob newSource cfg) outJobs' = map Inr (p_output s')"
      unfolding receive_result(1) by simp
    moreover from all oj
    have "mset (doneJobs @ [simIndex]) + mset outJobs' + mset (held (p_workers s'))
        + mset (p_jobs s')
        + mset (map word_of_nat [p_next s' ..< nat (sint (runs cfg))])
      = mset (jobIndices cfg)"
      unfolding receive_result(1) by simp
    ultimately show ?thesis by (intro pipeline_invI)
  qed
qed

lemma pipeline_inv_reachable:
  "(pipeline_step newSource cfg)\<^sup>*\<^sup>* (pipeline_init workerCount) s \<Longrightarrow> pipeline_inv newSource cfg s"
  by (induction rule: rtranclp_induct) (simp_all add: pipeline_inv_init pipeline_inv_step)

text \<open>A finished run has consumed the results of exactly the jobs \<open>0 .. runs - 1\<close>.\<close>

lemma pipeline_done_result:
  assumes inv: "pipeline_inv newSource cfg s" and fin: "pipeline_done cfg s"
  shows "runScenario newSource fdiv cfg (jobIndices cfg) = Inr (finish fdiv (p_tally s))"
proof -
  from inv obtain doneJobs outJobs sims where
    dn: "map (simulateJob newSource cfg) doneJobs = map Inr sims"
    and tl: "p_tally s = fold consume sims tally0"
    and out: "map (simulateJob newSource cfg) outJobs = map Inr (p_output s)"
    and all: "mset doneJobs + mset outJobs + mset (held (p_workers s)) + mset (p_jobs s)
            + mset (map word_of_nat [p_next s ..< nat (sint (runs cfg))])
          = mset (jobIndices cfg)"
    unfolding pipeline_inv_def by blast
  from fin have nx: "\<not> int (p_next s) < sint (runs cfg)" and "p_jobs s = []"
    and "list_all (\<lambda>w. w = None) (p_workers s)" and "p_output s = []"
    unfolding pipeline_done_def by blast+
  moreover from nx have "nat (sint (runs cfg)) \<le> p_next s" by linarith
  ultimately have "p_jobs s = []" "held (p_workers s) = []" "p_output s = []"
    "[p_next s ..< nat (sint (runs cfg))] = []"
    by (simp_all add: held_all_None)
  with out all have "mset doneJobs = mset (jobIndices cfg)" by simp
  then have "runScenario newSource fdiv cfg (jobIndices cfg)
      = runScenario newSource fdiv cfg doneJobs"
    by (intro runScenario_arrival_order) simp
  also have "\<dots> = Inr (finish fdiv (p_tally s))"
    unfolding runScenario_def dn tl by (simp add: collect_map_Inr)
  finally show ?thesis .
qed

lemma runScenario_returns_result:
  assumes "runScenario_returns newSource fdiv workerCount cfg results"
  shows "runScenario newSource fdiv cfg (jobIndices cfg) = Inr results"
proof -
  from assms obtain s where
    "(pipeline_step newSource cfg)\<^sup>*\<^sup>* (pipeline_init workerCount) s"
    "pipeline_done cfg s" "results = finish fdiv (p_tally s)"
    unfolding runScenario_returns_def by blast
  with pipeline_done_result [OF pipeline_inv_reachable] show ?thesis by simp
qed


text \<open>
  A complete run exists whenever no trial panics and at least one worker is started: the
  schedule that passes one job at a time through the first worker.
\<close>

lemma pipeline_one_at_a_time:
  assumes w: "0 < workerCount"
    and ok: "\<And>simIndex. \<exists>sim. simulateJob newSource cfg simIndex = Inr sim"
  shows "k \<le> nat (sint (runs cfg)) \<Longrightarrow>
    \<exists>t. (pipeline_step newSource cfg)\<^sup>*\<^sup>* (pipeline_init workerCount)
      \<lparr>p_next = k, p_jobs = [], p_workers = replicate workerCount None, p_output = [],
       p_tally = t\<rparr>"
proof (induction k)
  case 0
  have "(pipeline_step newSource cfg)\<^sup>*\<^sup>* (pipeline_init workerCount) (pipeline_init workerCount)"
    by simp
  then show ?case unfolding pipeline_init_def by blast
next
  case (Suc k)
  then obtain t where reach: "(pipeline_step newSource cfg)\<^sup>*\<^sup>* (pipeline_init workerCount)
      \<lparr>p_next = k, p_jobs = [], p_workers = replicate workerCount None, p_output = [],
       p_tally = t\<rparr>"
    by auto
  from ok obtain sim where sim: "simulateJob newSource cfg (word_of_nat k) = Inr sim"
    by blast
  let ?idle = "replicate workerCount (None :: go_int option)"
  let ?s0 = "\<lparr>p_next = k, p_jobs = [], p_workers = ?idle, p_output = [], p_tally = t\<rparr>"
  let ?s1 = "\<lparr>p_next = Suc k, p_jobs = [word_of_nat k], p_workers = ?idle, p_output = [],
      p_tally = t\<rparr>"
  let ?s2 = "\<lparr>p_next = Suc k, p_jobs = [], p_workers = ?idle[0 := Some (word_of_nat k)],
      p_output = [], p_tally = t\<rparr>"
  let ?s3 = "\<lparr>p_next = Suc k, p_jobs = [], p_workers = ?idle, p_output = [sim],
      p_tally = t\<rparr>"
  let ?s4 = "\<lparr>p_next = Suc k, p_jobs = [], p_workers = ?idle, p_output = [],
      p_tally = consume sim t\<rparr>"
  from Suc.prems have lt: "int k < sint (runs cfg)" by linarith
  have "pipeline_step newSource cfg ?s0 ?s1"
    using send_job [of ?s0 cfg newSource] lt w by simp
  moreover have "pipeline_step newSource cfg ?s1 ?s2"
    using receive_job [of 0 ?s1 "word_of_nat k" "[]" newSource cfg] w by simp
  moreover have "?idle[0 := Some (word_of_nat k), 0 := None] = ?idle"
    using w by (cases workerCount) simp_all
  then have "pipeline_step newSource cfg ?s2 ?s3"
    using send_result [of 0 ?s2 "word_of_nat k" newSource cfg sim] w sim by simp
  moreover have "pipeline_step newSource cfg ?s3 ?s4"
    using receive_result [of ?s3 sim "[]" newSource cfg] by simp
  ultimately have "(pipeline_step newSource cfg)\<^sup>*\<^sup>* (pipeline_init workerCount) ?s4"
    using reach by (meson rtranclp.rtrancl_into_rtrancl)
  then show ?case by blast
qed

lemma runScenario_completes:
  assumes "0 < workerCount"
    and "\<And>simIndex. \<exists>sim. simulateJob newSource cfg simIndex = Inr sim"
  shows "\<exists>results. runScenario_returns newSource fdiv workerCount cfg results"
proof -
  from pipeline_one_at_a_time [OF assms order_refl]
  obtain t where "(pipeline_step newSource cfg)\<^sup>*\<^sup>* (pipeline_init workerCount)
      \<lparr>p_next = nat (sint (runs cfg)), p_jobs = [], p_workers = replicate workerCount None,
       p_output = [], p_tally = t\<rparr>"
    by blast
  moreover have "pipeline_done cfg
      \<lparr>p_next = nat (sint (runs cfg)), p_jobs = [], p_workers = replicate workerCount None,
       p_output = [], p_tally = t\<rparr>"
    unfolding pipeline_done_def by (simp add: list_all_length)
  ultimately show ?thesis unfolding runScenario_returns_def by blast
qed

lemma validated_job_runs:
  assumes "validateConfig cfg = None"
  shows "\<exists>sim. simulateJob newSource cfg simIndex = Inr sim"
proof -
  from assms have "7 \<le> length (fst (createDeck cfg (newSource (simSeed (seed cfg) simIndex))))"
    by (rule validated_deck_length)
  then show ?thesis unfolding simulateJob_def Let_def by (rule runSimulation_total)
qed

text \<open>
  C1. Two complete executions of \<open>runScenario\<close> on the same configuration (same
  \<open>deckSize\<close>, \<open>lands\<close>, \<open>combos\<close>, \<open>required\<close>, \<open>runs\<close> and \<open>seed\<close>) return identical
  \<open>Results\<close>, whatever the numbers of workers and however the goroutines were
  scheduled; the common value is the one obtained by consuming the results of the
  trials \<open>0 .. runs - 1\<close> in any order.
\<close>

theorem runScenario_deterministic:
  assumes "runScenario_returns newSource fdiv workerCount1 cfg results1"
    and "runScenario_returns newSource fdiv workerCount2 cfg results2"
    and "mset arrival = mset (jobIndices cfg)"
  shows "results1 = results2 \<and> runScenario newSource fdiv cfg arrival = Inr results1"
proof -
  have "runScenario newSource fdiv cfg arrival = runScenario newSource fdiv cfg (jobIndices cfg)"
    by (rule runScenario_arrival_order [OF assms(3)])
  with runScenario_returns_result [OF assms(1)] runScenario_returns_result [OF assms(2)]
  show ?thesis by simp
qed

theorem runScenario_deterministic_witness:
  "\<exists>results1 results2.
     runScenario_returns (\<lambda>s k. unat s + k) (\<lambda>a b. real_of_int (sint a) / real_of_int (sint b))
       1 testRunConfig results1
   \<and> runScenario_returns (\<lambda>s k. unat s + k) (\<lambda>a b. real_of_int (sint a) / real_of_int (sint b))
       8 testRunConfig results2
   \<and> mset (rev (jobIndices testRunConfig)) = mset (jobIndices testRunConfig)
   \<and> results1 = results2
   \<and> runScenario (\<lambda>s k. unat s + k) (\<lambda>a b. real_of_int (sint a) / real_of_int (sint b))
       testRunConfig (rev (jobIndices testRunConfig)) = Inr results1"
proof -
  let ?ns = "\<lambda>(s :: int64) k. unat s + k"
  let ?fdiv = "\<lambda>(a :: int64) (b :: int64). real_of_int (sint a) / real_of_int (sint b)"
  have ok: "validateConfig testRunConfig = None"
    by (simp add: validateConfig_None_iff testRunConfig_def)
  have h3: "mset (rev (jobIndices testRunConfig)) = mset (jobIndices testRunConfig)"
    by (rule mset_rev)
  from runScenario_completes [of 1 ?ns testRunConfig ?fdiv, OF _ validated_job_runs [OF ok]]
  obtain results1 where h1: "runScenario_returns ?ns ?fdiv 1 testRunConfig results1" by auto
  from runScenario_completes [of 8 ?ns testRunConfig ?fdiv, OF _ validated_job_runs [OF ok]]
  obtain results2 where h2: "runScenario_returns ?ns ?fdiv 8 testRunConfig results2" by auto
  from runScenario_deterministic [OF h1 h2 h3] h1 h2 h3 show ?thesis by blast
qed

end
